theory Spec2Isabelle
  imports Main "HOL-Library.Sublist"
begin

section \<open>The string operations of the host language\<close>

text \<open>
  The formatter (\<^verbatim>\<open>src/formatter.ts\<close>) works on JavaScript strings through
  \<^verbatim>\<open>startsWith\<close>, \<^verbatim>\<open>indexOf\<close>, \<^verbatim>\<open>slice\<close> and \<^verbatim>\<open>length\<close>. A string is modelled
  as a \<^typ>\<open>string\<close>, one \<^typ>\<open>char\<close> for one code unit, and every index is a
  natural number: the source only ever computes non-negative indices.

  \<^verbatim>\<open>text.startsWith(s, p)\<close> clamps \<open>p\<close> to the length of the text and compares.
\<close>

definition startsWith :: "string \<Rightarrow> string \<Rightarrow> nat \<Rightarrow> bool" where
  "startsWith text s p = prefix s (drop (min p (length text)) text)"

text \<open>
  \<^verbatim>\<open>text.indexOf(s, p)\<close>: the first index at or after \<open>p\<close> (clamped to the
  length) where \<open>s\<close> occurs, \<open>None\<close> standing for the answer \<open>-1\<close>. The empty
  string occurs at the clamped start itself.
\<close>

fun firstOccurrence :: "string \<Rightarrow> string \<Rightarrow> nat option" where
  "firstOccurrence s [] = (if s = [] then Some 0 else None)"
| "firstOccurrence s (c # cs) =
     (if prefix s (c # cs) then Some 0 else map_option Suc (firstOccurrence s cs))"

definition indexOf :: "string \<Rightarrow> string \<Rightarrow> nat \<Rightarrow> nat option" where
  "indexOf text s p =
     (let k = min p (length text)
      in map_option (\<lambda>i. k + i) (firstOccurrence s (drop k text)))"

text \<open>
  \<^verbatim>\<open>text.slice(a, b)\<close> for non-negative \<open>a\<close> and \<open>b\<close>: both clamped to the length,
  empty when \<open>b \<le> a\<close>.
\<close>

definition slice :: "string \<Rightarrow> nat \<Rightarrow> nat \<Rightarrow> string" where
  "slice text a b = take (b - a) (drop a text)"

section \<open>Transformers and the registry\<close>

text \<open>
  A delimiter is declared \<^verbatim>\<open>string | RegExp\<close>. \<open>Rx src\<close> is a regular expression
  object with source text \<open>src\<close>. \<^verbatim>\<open>addTransformer\<close> can store \<^verbatim>\<open>undefined\<close> in a
  delimiter field (its casts hide that from the type checker), hence the third
  constructor.
\<close>

datatype pattern = Str string | Rx string | Undefined

record transformer =
  name :: string
  "open" :: pattern
  close :: pattern
  recursive :: bool
  padding :: bool
  validate :: "string \<Rightarrow> bool"
  transformer :: "string \<Rightarrow> string"

text \<open>
  \<^verbatim>\<open>TransformerOptions\<close>: \<^verbatim>\<open>name\<close> and \<^verbatim>\<open>transformer\<close> are required by the type,
  every other property is optional (\<open>None\<close> is an absent property).
\<close>

record transformerOptions =
  o_name :: string
  o_symbol :: "pattern option"
  o_open :: "pattern option"
  o_close :: "pattern option"
  o_recursive :: "bool option"
  o_padding :: "bool option"
  o_validate :: "(string \<Rightarrow> bool) option"
  o_transformer :: "string \<Rightarrow> string"

text \<open>The value of an optional property; and what \<^verbatim>\<open>a || b\<close> tests.\<close>

definition property :: "pattern option \<Rightarrow> pattern" where
  "property p = (case p of None \<Rightarrow> Undefined | Some x \<Rightarrow> x)"

definition truthy :: "pattern \<Rightarrow> bool" where
  "truthy p = (case p of Str s \<Rightarrow> s \<noteq> [] | Rx _ \<Rightarrow> True | Undefined \<Rightarrow> False)"

text \<open>
  \<^verbatim>\<open>addTransformer(params)\<close> pushes
  \<^verbatim>\<open>Object.assign({recursive: true, open: params.symbol, close: params.symbol || params.open,
  padding: true, validate: (text) => true}, params)\<close>: a property present in \<open>params\<close>
  replaces the default. (The copied \<^verbatim>\<open>symbol\<close> property is never read again.)
  There is no other statement in the method.
\<close>

definition addTransformer :: "transformerOptions \<Rightarrow> transformer list \<Rightarrow> transformer list" where
  "addTransformer params transformers =
     transformers @
     [\<lparr> name = o_name params,
        open = (case o_open params of Some p \<Rightarrow> p | None \<Rightarrow> property (o_symbol params)),
        close = (case o_close params of Some p \<Rightarrow> p
                 | None \<Rightarrow> (if truthy (property (o_symbol params)) then property (o_symbol params)
                            else property (o_open params))),
        recursive = (case o_recursive params of Some b \<Rightarrow> b | None \<Rightarrow> True),
        padding = (case o_padding params of Some b \<Rightarrow> b | None \<Rightarrow> True),
        validate = (case o_validate params of Some v \<Rightarrow> v | None \<Rightarrow> (\<lambda>text. True)),
        transformer = o_transformer params \<rparr>]"

section \<open>Exceptions and the regular-expression engine\<close>

text \<open>
  Two exceptions can leave the formatter: the \<^verbatim>\<open>TypeError\<close> of reading
  \<^verbatim>\<open>.length\<close> or \<^verbatim>\<open>.replace\<close> of \<^verbatim>\<open>undefined\<close>, and the \<^verbatim>\<open>SyntaxError\<close> of
  \<^verbatim>\<open>new RegExp\<close> on an ill-formed source.
\<close>

datatype error = TypeError | SyntaxError

text \<open>
  The regular-expression engine belongs to the host, not to the repository. It is a
  parameter of the model: \<open>rx src subject\<close> is the outcome of
  \<^verbatim>\<open>new RegExp(src).exec(subject)\<close>, namely the constructor's exception, \<^verbatim>\<open>null\<close>, or
  a match with its element 0 (the matched text) and element 1 (the first group,
  \<open>None\<close> when it is \<^verbatim>\<open>undefined\<close>).
\<close>

datatype exec_result = Invalid | Null | Match string "string option"

type_synonym regexp = "string \<Rightarrow> string \<Rightarrow> exec_result"

section \<open>The literal scanner: \<^verbatim>\<open>format\<close>\<close>

text \<open>The three local variables of one call of \<^verbatim>\<open>format\<close>.\<close>

record scan =
  pos :: nat
  lastSlice :: nat
  io :: "string list"

definition start :: scan where
  "start = \<lparr> pos = 0, lastSlice = 0, io = [] \<rparr>"

text \<open>
  A delimiter used as a string: \<^verbatim>\<open>startsWith\<close>, \<^verbatim>\<open>indexOf\<close> and a template literal
  convert \<^verbatim>\<open>undefined\<close> to the text \<^verbatim>\<open>"undefined"\<close>. (A regular expression
  never reaches the string operations, and a template takes its \<^verbatim>\<open>source\<close>.)
\<close>

definition toString :: "pattern \<Rightarrow> string" where
  "toString p = (case p of Str s \<Rightarrow> s | Rx src \<Rightarrow> src | Undefined \<Rightarrow> ''undefined'')"

definition isRegExp :: "pattern \<Rightarrow> bool" where
  "isRegExp p = (case p of Rx _ \<Rightarrow> True | _ \<Rightarrow> False)"

text \<open>The local helpers \<^verbatim>\<open>accept\<close>, \<^verbatim>\<open>untilSymbol\<close> and \<^verbatim>\<open>slice_to_io\<close>.\<close>

definition accept :: "string \<Rightarrow> scan \<Rightarrow> string \<Rightarrow> nat \<Rightarrow> bool" where
  "accept text st s offset = startsWith text s (pos st + offset)"

definition untilSymbol :: "string \<Rightarrow> string \<Rightarrow> scan \<Rightarrow> scan" where
  "untilSymbol text symbol st =
     (case indexOf text symbol (pos st) of
        None \<Rightarrow> st\<lparr>pos := length text\<rparr>
      | Some i \<Rightarrow> st\<lparr>pos := i\<rparr>)"

definition slice_to_io :: "string \<Rightarrow> scan \<Rightarrow> scan" where
  "slice_to_io text st =
     st\<lparr>io := io st @ [slice text (lastSlice st) (pos st)], lastSlice := pos st\<rparr>"

text \<open>
  The padding loop \<^verbatim>\<open>while(accept(close, 1)) { pos += open.length + 1; untilSymbol(close) }\<close>.
  It need not end (with an empty \<open>close\<close> the test is always true), so its result is
  an option: \<open>None\<close> is a loop that runs forever.
\<close>

partial_function (option) paddingLoop :: "string \<Rightarrow> string \<Rightarrow> string \<Rightarrow> scan \<Rightarrow> scan option" where
  "paddingLoop text opn cls st =
     (if accept text st cls 1
      then paddingLoop text opn cls (untilSymbol text cls (st\<lparr>pos := pos st + (length opn + 1)\<rparr>))
      else Some st)"

text \<open>
  One call of the callback given to \<^verbatim>\<open>matches.some\<close>, up to the point where a span
  has been found and validated. \<open>Accepted m span st\<close>: the closing delimiter is
  matched at \<open>pos st\<close> and the callback goes on to call \<^verbatim>\<open>transformer(matchedText)\<close>;
  \<open>Rejected st\<close>: the callback returned \<^verbatim>\<open>false\<close> and left the variables as \<open>st\<close>;
  \<open>Threw e\<close>: it raised.
\<close>

datatype attempt = Accepted transformer string scan | Rejected scan | Threw error

definition attempt :: "regexp \<Rightarrow> string \<Rightarrow> transformer \<Rightarrow> scan \<Rightarrow> attempt option" where
  "attempt rx text m st =
     (if isRegExp (open m) \<or> isRegExp (close m) then
        (case rx (''^'' @ toString (open m) @ ''(.+?)'' @ toString (close m)) text of
           Invalid \<Rightarrow> Some (Threw SyntaxError)
         | Null \<Rightarrow> Some (Rejected st)
         | Match raw None \<Rightarrow> Some (Rejected st)
         | Match raw (Some rmatch1) \<Rightarrow>
             (if rmatch1 \<noteq> [] \<and> validate m rmatch1
              then Some (Rejected (st\<lparr>pos := pos st + length raw,
                                       io := io st @ [transformer m rmatch1],
                                       lastSlice := pos st + length raw\<rparr>))
              else Some (Rejected st)))
      else if accept text st (toString (open m)) 0 then
        (case open m of
           Str opn \<Rightarrow>
             (let st1 = st\<lparr>pos := pos st + length opn\<rparr>;
                  fromPos = pos st1;
                  cls = toString (close m);
                  st2 = untilSymbol text cls st1
              in case (if padding m then paddingLoop text opn cls st2 else Some st2) of
                   None \<Rightarrow> None
                 | Some st3 \<Rightarrow>
                     (let toPos = pos st3;
                          matchedText = slice text fromPos toPos
                      in if validate m matchedText then
                           (if accept text st3 cls 0
                            then Some (Accepted m matchedText st3)
                            else Some (Rejected st3))
                         else Some (Rejected (st3\<lparr>pos := fromPos\<rparr>))))
         | _ \<Rightarrow> Some (Threw TypeError))
      else Some (Rejected st))"

text \<open>
  \<^verbatim>\<open>matches.some(callback)\<close>: the candidates in order, each on the variables as the
  one before left them, until one is accepted.
\<close>

fun some :: "regexp \<Rightarrow> string \<Rightarrow> transformer list \<Rightarrow> scan \<Rightarrow> attempt option" where
  "some rx text [] st = Some (Rejected st)"
| "some rx text (m # ms) st =
     (case attempt rx text m st of
        None \<Rightarrow> None
      | Some (Rejected st') \<Rightarrow> some rx text ms st'
      | Some r \<Rightarrow> Some r)"

text \<open>
  The candidates of a position: \<^verbatim>\<open>this.transformers.filter(...)\<close>, a literal
  \<open>open\<close> has to occur at \<open>pos\<close>, anything else is let through.
\<close>

definition matches :: "string \<Rightarrow> transformer list \<Rightarrow> scan \<Rightarrow> transformer list" where
  "matches text transformers st =
     filter (\<lambda>t. case open t of
                    Str opn \<Rightarrow> indexOf text opn (pos st) = Some (pos st)
                  | _ \<Rightarrow> True) transformers"

text \<open>
  The \<^verbatim>\<open>while(pos < text.length)\<close> loop. After an accepted attempt the callback
  computes \<^verbatim>\<open>transformer(matchedText)\<close>, formats the result again when \<open>recursive\<close>
  is set (a fresh call of \<^verbatim>\<open>format\<close>, with variables of its own), pushes it and
  steps over the closing delimiter. The function is partial: \<open>None\<close> is a call
  that does not return; \<open>Some (Inl e)\<close> is an exception, \<open>Some (Inr s)\<close> the
  returned string \<^verbatim>\<open>io.join('')\<close>.
\<close>

partial_function (option) formatLoop ::
  "regexp \<Rightarrow> transformer list \<Rightarrow> string \<Rightarrow> scan \<Rightarrow> (error + string) option" where
  "formatLoop rx transformers text st =
     (if pos st < length text then
        (if matches text transformers st \<noteq> [] then
           (case some rx text (matches text transformers st) st of
              None \<Rightarrow> None
            | Some (Threw e) \<Rightarrow> Some (Inl e)
            | Some (Rejected st') \<Rightarrow>
                formatLoop rx transformers text (slice_to_io text (st'\<lparr>pos := pos st' + 1\<rparr>))
            | Some (Accepted m matchedText st') \<Rightarrow>
                Option.bind
                  (if recursive m
                   then formatLoop rx transformers (transformer m matchedText) start
                   else Some (Inr (transformer m matchedText)))
                  (\<lambda>parsed. case parsed of
                     Inl e \<Rightarrow> Some (Inl e)
                   | Inr parsed \<Rightarrow>
                       (case close m of
                          Str cls \<Rightarrow>
                            formatLoop rx transformers text
                              (st'\<lparr>io := io st' @ [parsed],
                                   pos := pos st' + length cls,
                                   lastSlice := pos st' + length cls\<rparr>)
                        | _ \<Rightarrow> Some (Inl TypeError))))
         else formatLoop rx transformers text (slice_to_io text (st\<lparr>pos := pos st + 1\<rparr>)))
      else Some (Inr (concat (io st))))"

definition format :: "regexp \<Rightarrow> transformer list \<Rightarrow> string \<Rightarrow> (error + string) option" where
  "format rx transformers text = formatLoop rx transformers text start"

section \<open>The pattern scanner: \<^verbatim>\<open>formatRegex\<close>\<close>

text \<open>
  \<^verbatim>\<open>normalizePattern(pattern)\<close> is
  \<^verbatim>\<open>pattern instanceof RegExp ? pattern.source : pattern.replace(/(.)/, "\\$1")\<close>.
  The expression \<^verbatim>\<open>/(.)/\<close> has no \<^verbatim>\<open>g\<close> flag, so \<^verbatim>\<open>replace\<close> rewrites only its
  first match: the first character that is not a line terminator gets a backslash in
  front of it, and the rest of the string is copied. (Of the line terminators, line
  feed and carriage return are characters of the model.)
\<close>

definition lineTerminator :: "char \<Rightarrow> bool" where
  "lineTerminator c = (c = CHR 0x0A \<or> c = CHR 0x0D)"

fun replaceFirst :: "string \<Rightarrow> string" where
  "replaceFirst [] = []"
| "replaceFirst (c # cs) =
     (if lineTerminator c then c # replaceFirst cs else CHR 0x5C # c # cs)"

definition normalizePattern :: "pattern \<Rightarrow> error + string" where
  "normalizePattern p =
     (case p of
        Rx src \<Rightarrow> Inr src
      | Str s \<Rightarrow> Inr (replaceFirst s)
      | Undefined \<Rightarrow> Inl TypeError)"

text \<open>
  \<^verbatim>\<open>text[pos]\<close> handed to \<^verbatim>\<open>RegExp.test\<close>: one character, or \<^verbatim>\<open>undefined\<close>, which
  \<^verbatim>\<open>test\<close> converts to a string.
\<close>

definition charAt :: "string \<Rightarrow> nat \<Rightarrow> string" where
  "charAt text p = (if p < length text then [text ! p] else ''undefined'')"

text \<open>
  One call of the callback given to \<^verbatim>\<open>this.transformers.some\<close> in \<^verbatim>\<open>formatRegex\<close>:
  its boolean result and the variables afterwards, or the exception. The variable
  \<^verbatim>\<open>lastPos\<close> of \<^verbatim>\<open>formatRegex\<close> is kept in the field \<open>lastSlice\<close>. The step
  that would format the transformed text again is commented out in the source, so
  \<open>recursive\<close> is not read.
\<close>

definition attemptRegex :: "regexp \<Rightarrow> string \<Rightarrow> transformer \<Rightarrow> scan \<Rightarrow> error + bool \<times> scan" where
  "attemptRegex rx text t st =
     (case normalizePattern (open t) of
        Inl e \<Rightarrow> Inl e
      | Inr opn \<Rightarrow>
     (case normalizePattern (close t) of
        Inl e \<Rightarrow> Inl e
      | Inr cls \<Rightarrow>
     (case rx (''^'' @ opn @ ''(.+?)'' @ cls) (slice text (pos st) (length text)) of
        Invalid \<Rightarrow> Inl SyntaxError
      | Null \<Rightarrow> Inr (False, st)
      | Match raw None \<Rightarrow> Inr (False, st)
      | Match raw (Some matchedText) \<Rightarrow>
          (if raw \<noteq> [] \<and> matchedText \<noteq> [] \<and> validate t matchedText then
             (let st1 = st\<lparr>io := io st @ [slice text (lastSlice st) (pos st)],
                           lastSlice := pos st\<rparr>;
                  transformed = transformer t matchedText;
                  st2 = st1\<lparr>pos := pos st1 + length raw\<rparr>;
                  done = st2\<lparr>io := io st2 @ [transformed], lastSlice := pos st2\<rparr>
              in if padding t then
                   (case rx cls (charAt text (pos st2)) of
                      Invalid \<Rightarrow> Inl SyntaxError
                    | Null \<Rightarrow> Inr (True, done)
                    | Match _ _ \<Rightarrow> Inr (False, st2\<lparr>pos := pos st2 + 1\<rparr>))
                 else Inr (True, done))
           else Inr (False, st)))))"

fun someRegex :: "regexp \<Rightarrow> string \<Rightarrow> transformer list \<Rightarrow> scan \<Rightarrow> error + bool \<times> scan" where
  "someRegex rx text [] st = Inr (False, st)"
| "someRegex rx text (t # ts) st =
     (case attemptRegex rx text t st of
        Inl e \<Rightarrow> Inl e
      | Inr (anyMatched, st') \<Rightarrow>
          (if anyMatched then Inr (True, st') else someRegex rx text ts st'))"

text \<open>Every call leaves the cursor where it was or further on; a match moves it.\<close>

lemma attemptRegex_pos:
  "attemptRegex rx text t st = Inr (b, st') \<Longrightarrow> pos st \<le> pos st' \<and> (b \<longrightarrow> pos st < pos st')"
  by (auto simp: attemptRegex_def Let_def
           split: sum.splits exec_result.splits option.splits if_splits)

lemma someRegex_pos:
  "someRegex rx text ts st = Inr (b, st') \<Longrightarrow> pos st \<le> pos st' \<and> (b \<longrightarrow> pos st < pos st')"
proof (induction ts arbitrary: st)
  case Nil
  then show ?case by simp
next
  case (Cons t ts)
  show ?case
  proof (cases "attemptRegex rx text t st")
    case (Inl e)
    with Cons.prems show ?thesis by simp
  next
    case (Inr r)
    obtain c st1 where r: "r = (c, st1)" by (cases r)
    from attemptRegex_pos [of rx "text" t st c st1] Inr r
    have step: "pos st \<le> pos st1" "c \<longrightarrow> pos st < pos st1" by simp_all
    show ?thesis
    proof (cases c)
      case True
      with Cons.prems Inr r step show ?thesis by simp
    next
      case False
      with Cons.prems Inr r have "someRegex rx text ts st1 = Inr (b, st')" by simp
      from Cons.IH [OF this] step show ?thesis by auto
    qed
  qed
qed

text \<open>
  The loop \<^verbatim>\<open>while(pos < text.length)\<close> of \<^verbatim>\<open>formatRegex\<close> and the final
  \<^verbatim>\<open>io.push(text.slice(lastPos, pos)); return io.join('')\<close>.
\<close>

function formatRegexLoop ::
  "regexp \<Rightarrow> transformer list \<Rightarrow> string \<Rightarrow> scan \<Rightarrow> error + string" where
  "formatRegexLoop rx transformers text st =
     (if pos st < length text then
        (case someRegex rx text transformers st of
           Inl e \<Rightarrow> Inl e
         | Inr (anyMatched, st') \<Rightarrow>
             (if anyMatched then formatRegexLoop rx transformers text st'
              else formatRegexLoop rx transformers text (st'\<lparr>pos := pos st' + 1\<rparr>)))
      else Inr (concat (io st @ [slice text (lastSlice st) (pos st)])))"
  by pat_completeness auto
termination
proof (relation "measure (\<lambda>(rx, transformers, text, st). length text - pos st)")
  show "wf (measure (\<lambda>(rx, transformers, text, st). length text - pos st))" by simp
next
  fix rx :: regexp and transformers tx st x2 anyMatched st'
  assume "pos st < length tx" "someRegex rx tx transformers st = Inr x2"
    "(anyMatched, st') = x2" "anyMatched"
  then show "((rx, transformers, tx, st'), (rx, transformers, tx, st))
      \<in> measure (\<lambda>(rx, transformers, text, st). length text - pos st)"
    using someRegex_pos [of rx tx transformers st anyMatched st'] by auto
next
  fix rx :: regexp and transformers tx st x2 anyMatched st'
  assume "pos st < length tx" "someRegex rx tx transformers st = Inr x2"
    "(anyMatched, st') = x2" "\<not> anyMatched"
  then show "((rx, transformers, tx, st'\<lparr>pos := pos st' + 1\<rparr>), (rx, transformers, tx, st))
      \<in> measure (\<lambda>(rx, transformers, text, st). length text - pos st)"
    using someRegex_pos [of rx tx transformers st anyMatched st'] by auto
qed

definition formatRegex :: "regexp \<Rightarrow> transformer list \<Rightarrow> string \<Rightarrow> error + string" where
  "formatRegex rx transformers text = formatRegexLoop rx transformers text start"

declare formatRegexLoop.simps [simp del]

section \<open>Literal delimiters\<close>

text \<open>
  A transformer whose \<open>open\<close> and \<open>close\<close> are both non-empty strings; and the
  cursor check for one iteration of the loop: \<open>advanced st r\<close> holds when, after the
  outcome \<open>r\<close> of \<^verbatim>\<open>matches.some\<close>, the iteration that started with the variables
  \<open>st\<close> ends with \<open>pos\<close> strictly further on (after \<^verbatim>\<open>pos += close.length\<close> for an
  accepted attempt, after \<^verbatim>\<open>pos += 1\<close> otherwise).
\<close>

definition literal :: "transformer \<Rightarrow> bool" where
  "literal t =
     (case open t of
        Str opn \<Rightarrow> opn \<noteq> [] \<and> (case close t of Str cls \<Rightarrow> cls \<noteq> [] | _ \<Rightarrow> False)
      | _ \<Rightarrow> False)"

definition advanced :: "scan \<Rightarrow> attempt \<Rightarrow> bool" where
  "advanced st r =
     (case r of
        Accepted m matchedText st' \<Rightarrow>
          (case close m of Str cls \<Rightarrow> pos st < pos st' + length cls | _ \<Rightarrow> False)
      | Rejected st' \<Rightarrow> pos st < pos st' + 1
      | Threw e \<Rightarrow> False)"

section \<open>The transformers of the scenarios\<close>

text \<open>
  The registrations the scenarios use: italic with \<^verbatim>\<open>symbol "*"\<close> and
  \<^verbatim>\<open>padding true\<close>, bold with \<^verbatim>\<open>symbol "**"\<close>, and code with a backquote as
  symbol and \<^verbatim>\<open>recursive false\<close>; each wraps the span in a tag.
\<close>

definition italicOptions :: transformerOptions where
  "italicOptions =
     \<lparr> o_name = ''italic'', o_symbol = Some (Str ''*''), o_open = None, o_close = None,
       o_recursive = None, o_padding = Some True, o_validate = None,
       o_transformer = (\<lambda>s. ''<i>'' @ s @ ''</i>'') \<rparr>"

definition boldOptions :: transformerOptions where
  "boldOptions =
     \<lparr> o_name = ''bold'', o_symbol = Some (Str ''**''), o_open = None, o_close = None,
       o_recursive = None, o_padding = None, o_validate = None,
       o_transformer = (\<lambda>s. ''<b>'' @ s @ ''</b>'') \<rparr>"

definition codeOptions :: transformerOptions where
  "codeOptions =
     \<lparr> o_name = ''code'', o_symbol = Some (Str ''`''), o_open = None, o_close = None,
       o_recursive = Some False, o_padding = None, o_validate = None,
       o_transformer = (\<lambda>s. ''<code>'' @ s @ ''</code>'') \<rparr>"

text \<open>What \<^verbatim>\<open>addTransformer\<close> stores for them.\<close>

definition italic :: transformer where
  "italic =
     \<lparr> name = ''italic'', open = Str ''*'', close = Str ''*'', recursive = True,
       padding = True, validate = (\<lambda>text. True),
       transformer = (\<lambda>s. ''<i>'' @ s @ ''</i>'') \<rparr>"

definition bold :: transformer where
  "bold =
     \<lparr> name = ''bold'', open = Str ''**'', close = Str ''**'', recursive = True,
       padding = True, validate = (\<lambda>text. True),
       transformer = (\<lambda>s. ''<b>'' @ s @ ''</b>'') \<rparr>"

definition code :: transformer where
  "code =
     \<lparr> name = ''code'', open = Str ''`'', close = Str ''`'', recursive = False,
       padding = True, validate = (\<lambda>text. True),
       transformer = (\<lambda>s. ''<code>'' @ s @ ''</code>'') \<rparr>"

text \<open>Options with a name and a callback, and neither \<^verbatim>\<open>symbol\<close> nor \<^verbatim>\<open>open\<close>.\<close>

definition noDelimiterOptions :: transformerOptions where
  "noDelimiterOptions =
     \<lparr> o_name = ''plain'', o_symbol = None, o_open = None, o_close = None,
       o_recursive = None, o_padding = None, o_validate = None,
       o_transformer = (\<lambda>s. s) \<rparr>"

text \<open>
  What the regular-expression engine answers where \<^verbatim>\<open>formatRegex\<close>, with italic
  registered first, consults it on the text \<^verbatim>\<open>*`a`*\<close>: the anchored expression
  \<^verbatim>\<open>^\*(.+?)\*\<close> matches the whole text with the span between the stars as group 1;
  nothing else is asked that matches (in particular the star does not occur in
  \<^verbatim>\<open>undefined\<close>).
\<close>

definition scenarioEngine :: regexp where
  "scenarioEngine src subject =
     (if src = ''^'' @ [CHR 0x5C] @ ''*(.+?)'' @ [CHR 0x5C] @ ''*'' \<and> subject = ''*`a`*''
      then Match ''*`a`*'' (Some ''`a`'')
      else Null)"

section \<open>One iteration of the scan loop\<close>

text \<open>
  The defining equation of \<open>formatLoop\<close>, one rule for each way an iteration of the
  \<^verbatim>\<open>while\<close> loop can go.
\<close>

lemma formatLoop_done:
  "\<not> pos st < length text \<Longrightarrow> formatLoop rx trs text st = Some (Inr (concat (io st)))"
  by (subst formatLoop.simps) simp

lemma formatLoop_skip:
  "pos st < length text \<Longrightarrow> matches text trs st = [] \<Longrightarrow>
   formatLoop rx trs text st = formatLoop rx trs text (slice_to_io text (st\<lparr>pos := pos st + 1\<rparr>))"
  by (subst formatLoop.simps) simp

lemma formatLoop_rejected:
  "pos st < length text \<Longrightarrow> matches text trs st \<noteq> [] \<Longrightarrow>
   some rx text (matches text trs st) st = Some (Rejected st') \<Longrightarrow>
   formatLoop rx trs text st = formatLoop rx trs text (slice_to_io text (st'\<lparr>pos := pos st' + 1\<rparr>))"
  by (subst formatLoop.simps) simp

lemma formatLoop_accepted:
  "pos st < length text \<Longrightarrow> matches text trs st \<noteq> [] \<Longrightarrow>
   some rx text (matches text trs st) st = Some (Accepted m matchedText st') \<Longrightarrow>
   formatLoop rx trs text st =
     Option.bind
       (if recursive m then format rx trs (transformer m matchedText)
        else Some (Inr (transformer m matchedText)))
       (\<lambda>parsed. case parsed of
          Inl e \<Rightarrow> Some (Inl e)
        | Inr parsed \<Rightarrow>
            (case close m of
               Str cls \<Rightarrow>
                 formatLoop rx trs text
                   (st'\<lparr>io := io st' @ [parsed],
                        pos := pos st' + length cls,
                        lastSlice := pos st' + length cls\<rparr>)
             | _ \<Rightarrow> Some (Inl TypeError)))"
  by (subst formatLoop.simps) (simp add: format_def)

lemma registered_italic: "addTransformer italicOptions ts = ts @ [italic]"
  by (simp add: addTransformer_def italicOptions_def italic_def property_def truthy_def)

lemma registered_bold: "addTransformer boldOptions ts = ts @ [bold]"
  by (simp add: addTransformer_def boldOptions_def bold_def property_def truthy_def)

lemma registered_code: "addTransformer codeOptions ts = ts @ [code]"
  by (simp add: addTransformer_def codeOptions_def code_def property_def truthy_def)

text \<open>The definitions a run on a concrete text unfolds.\<close>

lemmas run =
  Let_def format_def start_def formatLoop.simps paddingLoop.simps matches_def attempt_def
  accept_def untilSymbol_def slice_to_io_def startsWith_def indexOf_def slice_def
  toString_def isRegExp_def

section \<open>Where the cursor can go\<close>

lemma firstOccurrence_Some:
  "firstOccurrence s xs = Some i \<Longrightarrow> i \<le> length xs \<and> prefix s (drop i xs)"
proof (induction xs arbitrary: i)
  case Nil
  then show ?case by (simp split: if_splits)
next
  case (Cons c cs)
  show ?case
  proof (cases "prefix s (c # cs)")
    case True
    with Cons.prems show ?thesis by simp
  next
    case False
    with Cons.prems obtain j where "firstOccurrence s cs = Some j" "i = Suc j" by auto
    with Cons.IH [of j] show ?thesis by simp
  qed
qed

lemma indexOf_Some:
  assumes "indexOf text s p = Some i"
  shows "min p (length text) \<le> i" and "i \<le> length text" and "prefix s (drop i text)"
proof -
  let ?k = "min p (length text)"
  from assms obtain j where j: "firstOccurrence s (drop ?k text) = Some j" "i = ?k + j"
    by (auto simp: indexOf_def Let_def)
  from firstOccurrence_Some [OF j(1)]
  have "j \<le> length (drop ?k text)" "prefix s (drop j (drop ?k text))" by simp_all
  with j(2) show "min p (length text) \<le> i" "i \<le> length text" "prefix s (drop i text)"
    by (simp_all add: add.commute)
qed

lemma untilSymbol_fields [simp]:
  "io (untilSymbol text s st) = io st" "lastSlice (untilSymbol text s st) = lastSlice st"
  by (simp_all add: untilSymbol_def split: option.splits)

lemma untilSymbol_pos:
  "min (pos st) (length text) \<le> pos (untilSymbol text s st)"
  "pos (untilSymbol text s st) \<le> length text"
  by (auto simp: untilSymbol_def split: option.splits dest: indexOf_Some)

text \<open>A non-empty string found at an offset leaves room for itself.\<close>

lemma accept_room:
  "accept text st s k \<Longrightarrow> s \<noteq> [] \<Longrightarrow> pos st + k + length s \<le> length text"
proof -
  assume a: "accept text st s k" and s: "s \<noteq> []"
  let ?p = "min (pos st + k) (length text)"
  from a have pre: "prefix s (drop ?p text)" by (simp add: accept_def startsWith_def)
  then have len: "length s \<le> length text - ?p" using prefix_length_le by fastforce
  with s have "?p < length text" by (cases "?p < length text") auto
  then have "?p = pos st + k" by simp
  with len show ?thesis by simp
qed

lemma accept_room0:
  "accept text st s 0 \<Longrightarrow> pos st \<le> length text \<Longrightarrow> pos st + length s \<le> length text"
proof -
  assume a: "accept text st s 0" and p: "pos st \<le> length text"
  then have "prefix s (drop (pos st) text)" by (simp add: accept_def startsWith_def min_def)
  then have "length s \<le> length text - pos st" using prefix_length_le by fastforce
  with p show ?thesis by simp
qed

text \<open>
  With a non-empty \<open>close\<close> the padding loop returns: every round moves the cursor
  forward, and never beyond the end of the text.
\<close>

lemma paddingLoop_returns:
  assumes "cls \<noteq> []"
  shows "\<exists>st'. paddingLoop text opn cls st = Some st' \<and> pos st \<le> pos st'
           \<and> (pos st \<le> length text \<longrightarrow> pos st' \<le> length text)
           \<and> io st' = io st \<and> lastSlice st' = lastSlice st"
proof (induction "length text - pos st" arbitrary: st rule: less_induct)
  case less
  show ?case
  proof (cases "accept text st cls 1")
    case False
    then show ?thesis by (subst paddingLoop.simps) simp
  next
    case True
    let ?st1 = "untilSymbol text cls (st\<lparr>pos := pos st + (length opn + 1)\<rparr>)"
    from accept_room [OF True assms] have room: "pos st + 1 < length text"
      using assms by (cases cls) auto
    have "min (pos st + (length opn + 1)) (length text) \<le> pos ?st1"
      using untilSymbol_pos(1) [of "st\<lparr>pos := pos st + (length opn + 1)\<rparr>" "text" cls] by simp
    with room have fwd: "pos st < pos ?st1" by (simp add: min_def split: if_splits)
    have le: "pos ?st1 \<le> length text" by (rule untilSymbol_pos(2))
    from fwd room have "length text - pos ?st1 < length text - pos st" by simp
    from less [OF this] obtain st' where
      "paddingLoop text opn cls ?st1 = Some st'" "pos ?st1 \<le> pos st'"
      "pos ?st1 \<le> length text \<longrightarrow> pos st' \<le> length text"
      "io st' = io ?st1" "lastSlice st' = lastSlice ?st1" by blast
    with fwd le True show ?thesis by (subst paddingLoop.simps) simp
  qed
qed

section \<open>What has been pushed stays\<close>

lemma paddingLoop_fields:
  assumes "paddingLoop text opn cls st = Some st'"
  shows "io st' = io st \<and> lastSlice st' = lastSlice st"
proof (rule paddingLoop.raw_induct
    [where P = "\<lambda>text opn cls st st'. io st' = io st \<and> lastSlice st' = lastSlice st", OF _ assms])
  fix loop tx opn cls and st st' :: scan
  assume IH: "\<And>tx opn cls st st'. loop tx opn cls st = Some st'
                \<Longrightarrow> io st' = io st \<and> lastSlice st' = lastSlice st"
    and body: "(if accept tx st cls 1
                then loop tx opn cls (untilSymbol tx cls (st\<lparr>pos := pos st + (length opn + 1)\<rparr>))
                else Some st) = Some st'"
  show "io st' = io st \<and> lastSlice st' = lastSlice st"
  proof (cases "accept tx st cls 1")
    case True
    with body IH [of tx opn cls "untilSymbol tx cls (st\<lparr>pos := pos st + (length opn + 1)\<rparr>)" st']
    show ?thesis by simp
  next
    case False
    with body show ?thesis by simp
  qed
qed

lemma attempt_io:
  assumes "attempt rx text m st = Some r"
  shows "case r of
           Accepted m' matchedText st' \<Rightarrow> m' = m \<and> io st' = io st
         | Rejected st' \<Rightarrow> prefix (io st) (io st')
         | Threw e \<Rightarrow> True"
proof (cases "isRegExp (open m) \<or> isRegExp (close m)")
  case True
  with assms show ?thesis
    by (auto simp: attempt_def split: exec_result.splits option.splits if_splits)
next
  case False
  show ?thesis
  proof (cases "accept text st (toString (open m)) 0")
    case no: False
    with False assms show ?thesis by (auto simp: attempt_def)
  next
    case yes: True
    show ?thesis
    proof (cases "open m")
      case (Str opn)
      let ?st2 = "untilSymbol text (toString (close m)) (st\<lparr>pos := pos st + length opn\<rparr>)"
      from assms False yes Str obtain st3 where
        st3: "(if padding m then paddingLoop text opn (toString (close m)) ?st2 else Some ?st2)
                = Some st3"
        by (auto simp: attempt_def Let_def split: option.splits)
      then have "io st3 = io st"
        by (auto split: if_splits dest: paddingLoop_fields)
      with assms False yes Str st3 show ?thesis
        by (auto simp: attempt_def Let_def split: if_splits)
    next
      case (Rx src)
      with False show ?thesis by (simp add: isRegExp_def)
    next
      case Undefined
      with assms False yes show ?thesis by (auto simp: attempt_def)
    qed
  qed
qed

lemma some_io:
  assumes "some rx text ms st = Some r"
  shows "case r of
           Accepted m matchedText st' \<Rightarrow> prefix (io st) (io st')
         | Rejected st' \<Rightarrow> prefix (io st) (io st')
         | Threw e \<Rightarrow> True"
  using assms
proof (induction ms arbitrary: st)
  case Nil
  then show ?case by auto
next
  case (Cons m ms)
  from Cons.prems obtain r1 where r1: "attempt rx text m st = Some r1"
    by (auto split: option.splits)
  note io1 = attempt_io [OF r1]
  show ?case
  proof (cases r1)
    case (Accepted m' matchedText st')
    with r1 Cons.prems io1 show ?thesis by auto
  next
    case (Rejected st1)
    with r1 Cons.prems have "some rx text ms st1 = Some r" by simp
    from Cons.IH [OF this] io1 Rejected show ?thesis
      by (cases r) (auto intro: prefix_order.trans)
  next
    case (Threw e)
    with r1 Cons.prems show ?thesis by auto
  qed
qed

lemma prefix_concat: "prefix xs ys \<Longrightarrow> prefix (concat xs) (concat ys)"
  by (auto simp: prefix_def)

text \<open>
  The returned string starts with everything pushed so far: \<^verbatim>\<open>format\<close> only ever
  appends to \<^verbatim>\<open>io\<close>.
\<close>

lemma formatLoop_io_prefix:
  assumes "formatLoop rx trs text st = Some (Inr out)"
  shows "prefix (concat (io st)) out"
proof -
  have "\<forall>out. r = Inr out \<longrightarrow> prefix (concat (io st)) out"
    if "formatLoop rx trs text st = Some r" for r
  proof (rule formatLoop.raw_induct
      [where P = "\<lambda>rx trs text st r. \<forall>out. r = Inr out \<longrightarrow> prefix (concat (io st)) out", OF _ that])
    fix loop and rx :: regexp and trs tx and st :: scan and r :: "error + string"
    assume IH': "\<And>rx trs tx st r. loop rx trs tx st = Some r
                  \<Longrightarrow> \<forall>out. r = Inr out \<longrightarrow> prefix (concat (io st)) out"
      and body: "(if pos st < length tx then
          (if matches tx trs st \<noteq> [] then
             (case some rx tx (matches tx trs st) st of
                None \<Rightarrow> None
              | Some (Threw e) \<Rightarrow> Some (Inl e)
              | Some (Rejected st') \<Rightarrow>
                  loop rx trs tx (slice_to_io tx (st'\<lparr>pos := pos st' + 1\<rparr>))
              | Some (Accepted m matchedText st') \<Rightarrow>
                  Option.bind
                    (if recursive m
                     then loop rx trs (transformer m matchedText) start
                     else Some (Inr (transformer m matchedText)))
                    (\<lambda>parsed. case parsed of
                       Inl e \<Rightarrow> Some (Inl e)
                     | Inr parsed \<Rightarrow>
                         (case close m of
                            Str cls \<Rightarrow>
                              loop rx trs tx
                                (st'\<lparr>io := io st' @ [parsed],
                                     pos := pos st' + length cls,
                                     lastSlice := pos st' + length cls\<rparr>)
                          | _ \<Rightarrow> Some (Inl TypeError))))
           else loop rx trs tx (slice_to_io tx (st\<lparr>pos := pos st + 1\<rparr>)))
        else Some (Inr (concat (io st)))) = Some r"
    have IH: "prefix (concat (io st)) out" if "loop rx trs tx st = Some (Inr out)"
      for rx trs tx st out using IH' [OF that] by simp
    show "\<forall>out. r = Inr out \<longrightarrow> prefix (concat (io st)) out"
    proof (intro allI impI)
      fix out
      assume r: "r = Inr out"
      show "prefix (concat (io st)) out"
      proof (cases "pos st < length tx")
        case False
        with body r show ?thesis by simp
      next
        case inside: True
        show ?thesis
        proof (cases "matches tx trs st = []")
          case True
          with body inside r
          have "loop rx trs tx (slice_to_io tx (st\<lparr>pos := pos st + 1\<rparr>)) = Some (Inr out)"
            by simp
          from IH [OF this] show ?thesis
            by (auto simp: slice_to_io_def elim: prefix_order.trans [rotated])
        next
          case False
          with body inside obtain a where a: "some rx tx (matches tx trs st) st = Some a"
            by (auto split: option.splits)
          note grow = some_io [OF a]
          show ?thesis
          proof (cases a)
            case (Rejected st')
            with body inside False a r
            have "loop rx trs tx (slice_to_io tx (st'\<lparr>pos := pos st' + 1\<rparr>)) = Some (Inr out)"
              by simp
            from IH [OF this]
            have "prefix (concat (io st' @ [slice tx (lastSlice st') (pos st' + 1)])) out"
              by (simp add: slice_to_io_def)
            then have "prefix (concat (io st')) out"
              by (auto elim: prefix_order.trans [rotated])
            moreover from grow Rejected have "prefix (concat (io st)) (concat (io st'))"
              by (simp add: prefix_concat)
            ultimately show ?thesis by (rule prefix_order.trans [rotated])
          next
            case (Accepted m matchedText st')
            with body inside False a r obtain p where
              p: "(case p of
                     Inl e \<Rightarrow> Some (Inl e)
                   | Inr parsed \<Rightarrow>
                       (case close m of
                          Str cls \<Rightarrow>
                            loop rx trs tx
                              (st'\<lparr>io := io st' @ [parsed], pos := pos st' + length cls,
                                   lastSlice := pos st' + length cls\<rparr>)
                        | _ \<Rightarrow> Some (Inl TypeError))) = Some (Inr out)"
              by (auto simp: bind_eq_Some_conv)
            then obtain parsed where parsed: "p = Inr parsed" by (cases p) auto
            with p obtain cls where
              "close m = Str cls"
              "loop rx trs tx (st'\<lparr>io := io st' @ [parsed], pos := pos st' + length cls,
                                   lastSlice := pos st' + length cls\<rparr>) = Some (Inr out)"
              by (cases "close m") auto
            from IH [OF this(2)] have "prefix (concat (io st' @ [parsed])) out" by simp
            then have "prefix (concat (io st')) out"
              by (auto elim: prefix_order.trans [rotated])
            moreover from grow Accepted have "prefix (concat (io st)) (concat (io st'))"
              by (simp add: prefix_concat)
            ultimately show ?thesis by (rule prefix_order.trans [rotated])
          next
            case (Threw e)
            with body inside False a r show ?thesis by simp
          qed
        qed
      qed
    qed
  qed
  with assms show ?thesis by simp
qed

section \<open>The empty registry\<close>

text \<open>
  With no transformer the loop copies the rest of the text, one character for each
  iteration.
\<close>

lemma formatLoop_no_transformers:
  "lastSlice st = pos st \<Longrightarrow>
   formatLoop rx [] text st = Some (Inr (concat (io st) @ drop (pos st) text))"
proof (induction "length text - pos st" arbitrary: st)
  case 0
  then show ?case by (simp add: formatLoop_done)
next
  case (Suc n)
  let ?st' = "slice_to_io text (st\<lparr>pos := pos st + 1\<rparr>)"
  from Suc.hyps(2) have lt: "pos st < length text" by simp
  have step: "formatLoop rx [] text st = formatLoop rx [] text ?st'"
    using lt by (simp add: formatLoop_skip matches_def)
  have "n = length text - pos ?st'" using Suc.hyps(2) by (simp add: slice_to_io_def)
  moreover have "lastSlice ?st' = pos ?st'" by (simp add: slice_to_io_def)
  ultimately have "formatLoop rx [] text ?st' = Some (Inr (concat (io ?st') @ drop (pos ?st') text))"
    by (rule Suc.hyps(1))
  moreover have "concat (io ?st') @ drop (pos ?st') text = concat (io st) @ drop (pos st) text"
  proof -
    have "take 1 (drop (pos st) text) @ drop (Suc (pos st)) text = drop (pos st) text"
      using append_take_drop_id [of 1 "drop (pos st) text"] by simp
    then show ?thesis using Suc.prems by (simp add: slice_to_io_def slice_def)
  qed
  ultimately show ?case using step by simp
qed

text \<open>
  Claim C9. With no transformer registered, \<^verbatim>\<open>format(t)\<close> returns \<open>t\<close> for every
  string \<open>t\<close>: the call returns, raises nothing, and its result is the input.
\<close>

theorem format_empty_registry: "format rx [] t = Some (Inr t)"
  by (simp add: format_def formatLoop_no_transformers start_def)

section \<open>Termination on literal, non-recursive registries\<close>

text \<open>
  An attempt with literal delimiters returns, raises nothing, and leaves the cursor
  where it was or further on, within the text.
\<close>

lemma attempt_literal:
  assumes "literal m" and "pos st \<le> length text"
  shows "\<exists>r. attempt rx text m st = Some r \<and>
           (case r of
              Accepted m' matchedText st' \<Rightarrow> m' = m \<and> pos st \<le> pos st' \<and> pos st' \<le> length text
            | Rejected st' \<Rightarrow> pos st \<le> pos st' \<and> pos st' \<le> length text
            | Threw e \<Rightarrow> False)"
proof -
  from assms(1) obtain opn cls where
    m: "open m = Str opn" "close m = Str cls" "cls \<noteq> []"
    by (auto simp: literal_def split: pattern.splits)
  show ?thesis
  proof (cases "accept text st opn 0")
    case False
    with m assms(2) show ?thesis by (simp add: attempt_def isRegExp_def toString_def)
  next
    case True
    let ?st1 = "st\<lparr>pos := pos st + length opn\<rparr>"
    let ?st2 = "untilSymbol text cls ?st1"
    from accept_room0 [OF True assms(2)] have st1: "pos ?st1 \<le> length text" by simp
    have st2: "pos ?st1 \<le> pos ?st2" "pos ?st2 \<le> length text"
      using untilSymbol_pos(1) [of ?st1 "text" cls] untilSymbol_pos(2) [of "text" cls ?st1] st1
      by simp_all
    obtain st3 where st3:
      "(if padding m then paddingLoop text opn cls ?st2 else Some ?st2) = Some st3"
      "pos ?st2 \<le> pos st3" "pos st3 \<le> length text"
      using paddingLoop_returns [OF m(3), of "text" opn ?st2] st2(2) by (cases "padding m") auto
    from st2 st3 have "pos st \<le> pos st3" by simp
    with True m st1 st3 show ?thesis
      by (simp add: attempt_def isRegExp_def toString_def Let_def)
  qed
qed

lemma some_literal:
  assumes "\<forall>m\<in>set ms. literal m" and "pos st \<le> length text"
  shows "\<exists>r. some rx text ms st = Some r \<and>
           (case r of
              Accepted m matchedText st' \<Rightarrow> m \<in> set ms \<and> pos st \<le> pos st' \<and> pos st' \<le> length text
            | Rejected st' \<Rightarrow> pos st \<le> pos st' \<and> pos st' \<le> length text
            | Threw e \<Rightarrow> False)"
  using assms
proof (induction ms arbitrary: st)
  case Nil
  then show ?case by simp
next
  case (Cons m ms)
  from Cons.prems have "literal m" by simp
  from attempt_literal [OF this Cons.prems(2), of rx] obtain r where
    r: "attempt rx text m st = Some r"
       "case r of
          Accepted m' matchedText st' \<Rightarrow> m' = m \<and> pos st \<le> pos st' \<and> pos st' \<le> length text
        | Rejected st' \<Rightarrow> pos st \<le> pos st' \<and> pos st' \<le> length text
        | Threw e \<Rightarrow> False" by blast
  show ?case
  proof (cases r)
    case (Accepted m' matchedText st')
    with r show ?thesis by simp
  next
    case (Rejected st')
    with r have st': "pos st \<le> pos st'" "pos st' \<le> length text" by simp_all
    from Cons.prems have "\<forall>m\<in>set ms. literal m" by simp
    from Cons.IH [OF this st'(2)] obtain r' where
      r': "some rx text ms st' = Some r'"
          "case r' of
             Accepted m matchedText st'' \<Rightarrow> m \<in> set ms \<and> pos st' \<le> pos st'' \<and> pos st'' \<le> length text
           | Rejected st'' \<Rightarrow> pos st' \<le> pos st'' \<and> pos st'' \<le> length text
           | Threw e \<Rightarrow> False" by blast
    from r(1) Rejected r'(1) have "some rx text (m # ms) st = Some r'" by simp
    moreover from r'(2) st'(1) have
      "case r' of
         Accepted m' matchedText st'' \<Rightarrow> m' \<in> set (m # ms) \<and> pos st \<le> pos st'' \<and> pos st'' \<le> length text
       | Rejected st'' \<Rightarrow> pos st \<le> pos st'' \<and> pos st'' \<le> length text
       | Threw e \<Rightarrow> False" by (cases r') auto
    ultimately show ?thesis by blast
  next
    case (Threw e)
    with r show ?thesis by simp
  qed
qed

text \<open>The outcome of \<^verbatim>\<open>matches.some\<close> on a literal registry moves the cursor on.\<close>

lemma some_matches_advanced:
  assumes "\<forall>t\<in>set trs. literal t" and "pos st < length text"
  shows "\<exists>r. some rx text (matches text trs st) st = Some r \<and> advanced st r
           \<and> (case r of Accepted m matchedText st' \<Rightarrow> m \<in> set trs | _ \<Rightarrow> True)"
proof -
  from assms(1) have lit: "\<forall>m\<in>set (matches text trs st). literal m" by (simp add: matches_def)
  from assms(2) have "pos st \<le> length text" by simp
  from some_literal [OF lit this, of rx] obtain r where
    r: "some rx text (matches text trs st) st = Some r"
       "case r of
          Accepted m matchedText st' \<Rightarrow>
            m \<in> set (matches text trs st) \<and> pos st \<le> pos st' \<and> pos st' \<le> length text
        | Rejected st' \<Rightarrow> pos st \<le> pos st' \<and> pos st' \<le> length text
        | Threw e \<Rightarrow> False" by blast
  show ?thesis
  proof (cases r)
    case (Accepted m matchedText st')
    with r(2) have m: "m \<in> set trs" "pos st \<le> pos st'" by (simp_all add: matches_def)
    with assms(1) have "literal m" by simp
    then obtain cls where "close m = Str cls" "cls \<noteq> []"
      by (auto simp: literal_def split: pattern.splits)
    with m Accepted r(1) show ?thesis by (cases cls) (simp_all add: advanced_def)
  next
    case (Rejected st')
    with r show ?thesis by (simp add: advanced_def)
  next
    case (Threw e)
    with r show ?thesis by simp
  qed
qed

lemma formatLoop_returns:
  assumes "\<forall>t\<in>set trs. \<not> recursive t \<and> literal t"
  shows "\<exists>out. formatLoop rx trs text st = Some (Inr out)"
proof (induction "length text - pos st" arbitrary: st rule: less_induct)
  case less
  show ?case
  proof (cases "pos st < length text")
    case False
    then show ?thesis by (simp add: formatLoop_done)
  next
    case True
    from assms have lit: "\<forall>t\<in>set trs. literal t" by simp
    from some_matches_advanced [OF lit True, of rx] obtain r where
      r: "some rx text (matches text trs st) st = Some r" "advanced st r"
         "case r of Accepted m matchedText st' \<Rightarrow> m \<in> set trs | _ \<Rightarrow> True" by blast
    show ?thesis
    proof (cases "matches text trs st = []")
      case True
      let ?st' = "slice_to_io text (st\<lparr>pos := pos st + 1\<rparr>)"
      from \<open>pos st < length text\<close> have "length text - pos ?st' < length text - pos st"
        by (simp add: slice_to_io_def)
      from less [OF this] True \<open>pos st < length text\<close> show ?thesis
        by (simp add: formatLoop_skip)
    next
      case False
      show ?thesis
      proof (cases r)
        case (Rejected st')
        let ?st' = "slice_to_io text (st'\<lparr>pos := pos st' + 1\<rparr>)"
        from r(2) Rejected \<open>pos st < length text\<close>
        have "length text - pos ?st' < length text - pos st"
          by (simp add: advanced_def slice_to_io_def)
        from less [OF this] obtain out where "formatLoop rx trs text ?st' = Some (Inr out)" ..
        with formatLoop_rejected [OF \<open>pos st < length text\<close> False] r(1) Rejected
        show ?thesis by simp
      next
        case (Accepted m matchedText st')
        with r(3) assms have m: "\<not> recursive m" "literal m" by simp_all
        then obtain cls where cls: "close m = Str cls"
          by (auto simp: literal_def split: pattern.splits)
        let ?st' = "st'\<lparr>io := io st' @ [transformer m matchedText],
                        pos := pos st' + length cls, lastSlice := pos st' + length cls\<rparr>"
        from r(2) Accepted cls \<open>pos st < length text\<close>
        have "length text - pos ?st' < length text - pos st" by (simp add: advanced_def)
        from less [OF this] obtain out where "formatLoop rx trs text ?st' = Some (Inr out)" ..
        with formatLoop_accepted [OF \<open>pos st < length text\<close> False] r(1) Accepted m(1) cls
        show ?thesis by simp
      next
        case (Threw e)
        with r(2) show ?thesis by (simp add: advanced_def)
      qed
    qed
  qed
qed

text \<open>
  Claim C10. When every registered transformer has \<open>recursive\<close> false and non-empty
  string delimiters, \<^verbatim>\<open>format(text)\<close> returns a string on every text, and every
  iteration of the scan loop strictly increases the cursor: from any variables
  \<open>st\<close> inside the text, \<^verbatim>\<open>matches.some\<close> returns an outcome after which the
  iteration ends with a larger \<open>pos\<close>, whether a transformer fired, was vetoed, was
  unterminated, or none was a candidate.
\<close>

theorem format_terminates:
  assumes "\<forall>t\<in>set transformers. \<not> recursive t \<and> literal t"
  shows "(\<exists>out. format rx transformers text = Some (Inr out))
       \<and> (\<forall>st. pos st < length text \<longrightarrow>
            (\<exists>r. some rx text (matches text transformers st) st = Some r \<and> advanced st r))"
proof
  from formatLoop_returns [OF assms]
  show "\<exists>out. format rx transformers text = Some (Inr out)" by (simp add: format_def)
next
  from assms have lit: "\<forall>t\<in>set transformers. literal t" by simp
  show "\<forall>st. pos st < length text \<longrightarrow>
          (\<exists>r. some rx text (matches text transformers st) st = Some r \<and> advanced st r)"
    using some_matches_advanced [OF lit] by blast
qed

text \<open>An instance: the code transformer alone, on a text with an open span.\<close>

theorem format_terminates_witness:
  "\<forall>rx. (\<not> recursive code \<and> literal code)
     \<and> (\<exists>out. format rx [code] ''`*raw*` and *more*'' = Some (Inr out))
     \<and> (\<exists>r. some rx ''`*raw*` and *more*'' (matches ''`*raw*` and *more*'' [code] start) start = Some r
           \<and> advanced start r)"
proof
  fix rx
  have c: "\<not> recursive code \<and> literal code" by (simp add: code_def literal_def)
  then have "\<forall>t\<in>set [code]. \<not> recursive t \<and> literal t" by simp
  from format_terminates [OF this, of rx "''`*raw*` and *more*''"] c
  show "(\<not> recursive code \<and> literal code)
     \<and> (\<exists>out. format rx [code] ''`*raw*` and *more*'' = Some (Inr out))
     \<and> (\<exists>r. some rx ''`*raw*` and *more*'' (matches ''`*raw*` and *more*'' [code] start) start = Some r
           \<and> advanced start r)"
    by (simp add: start_def)
qed

text \<open>
  The delimiters have to be non-empty for this: with an empty \<open>close\<close> the test of the
  padding loop is always true, the loop never ends, and neither does the call.
\<close>

lemma paddingLoop_empty_close: "paddingLoop text opn [] st = None"
proof (cases "paddingLoop text opn [] st")
  case None
  then show ?thesis .
next
  case (Some st')
  have "[] \<noteq> ([]::string)"
  proof (rule paddingLoop.raw_induct
      [where P = "\<lambda>text opn cls st st'. cls \<noteq> []", OF _ Some])
    fix loop tx opn cls and st st' :: scan
    assume IH: "\<And>tx opn cls st st'. loop tx opn cls st = Some st' \<Longrightarrow> cls \<noteq> []"
      and body: "(if accept tx st cls 1
                  then loop tx opn cls (untilSymbol tx cls (st\<lparr>pos := pos st + (length opn + 1)\<rparr>))
                  else Some st) = Some st'"
    show "cls \<noteq> []"
    proof
      assume "cls = []"
      with body have "loop tx opn [] (untilSymbol tx [] (st\<lparr>pos := pos st + (length opn + 1)\<rparr>)) = Some st'"
        by (simp add: accept_def startsWith_def)
      from IH [OF this] show False by simp
    qed
  qed
  then show ?thesis by simp
qed

lemma format_empty_close_diverges:
  "format rx [italic\<lparr>close := Str []\<rparr>] ''*x'' = None"
  by (subst format_def, subst formatLoop.simps)
     (simp add: start_def matches_def indexOf_def attempt_def accept_def startsWith_def
        isRegExp_def toString_def untilSymbol_def italic_def paddingLoop_empty_close)

section \<open>Registration order\<close>

lemma some_append:
  "some rx text (pre @ ms) st =
     (case some rx text pre st of
        Some (Rejected st1) \<Rightarrow> some rx text ms st1
      | r \<Rightarrow> r)"
proof (induction pre arbitrary: st)
  case Nil
  show ?case by simp
next
  case (Cons m pre)
  show ?case
  proof (cases "attempt rx text m st")
    case None
    then show ?thesis by simp
  next
    case (Some r)
    then show ?thesis using Cons.IH by (cases r) simp_all
  qed
qed

lemma matches_append:
  "matches text (xs @ ys) st = matches text xs st @ matches text ys st"
  by (simp add: matches_def)

lemma matches_Cons_literal:
  "open A = Str opn \<Longrightarrow> indexOf text opn (pos st) = Some (pos st) \<Longrightarrow>
   matches text (A # ys) st = A # matches text ys st"
  by (simp add: matches_def)

text \<open>
  Where registration order does decide. Let \<open>A\<close> be registered before \<open>B\<close>, both
  with a string \<open>open\<close> that occurs at the cursor, and let the candidates registered
  before \<open>A\<close> all fail, leaving the variables \<open>st1\<close>. When the attempt of \<open>A\<close>
  on \<open>st1\<close> is accepted, \<^verbatim>\<open>matches.some\<close> stops at \<open>A\<close>, and every string the
  call returns has the result of \<open>A\<close>'s callback (formatted again when \<open>A\<close> is
  recursive) right after what had been pushed before. \<open>B\<close> and everything after
  it is not consulted.
\<close>

lemma first_candidate_wins:
  assumes "pos st < length text"
    and "transformers = xs @ A # ys @ B # zs"
    and "open A = Str openA" and "indexOf text openA (pos st) = Some (pos st)"
    and "open B = Str openB" and "indexOf text openB (pos st) = Some (pos st)"
    and "some rx text (matches text xs st) st = Some (Rejected st1)"
    and "attempt rx text A st1 = Some (Accepted A matchedText st2)"
  shows "some rx text (matches text transformers st) st = Some (Accepted A matchedText st2)
       \<and> (\<forall>out. formatLoop rx transformers text st = Some (Inr out) \<longrightarrow>
            (\<exists>parsed.
               (if recursive A then format rx transformers (transformer A matchedText)
                else Some (Inr (transformer A matchedText))) = Some (Inr parsed)
               \<and> prefix (concat (io st1) @ parsed) out))"
proof -
  have cands: "matches text transformers st
      = matches text xs st @ A # (matches text ys st @ B # matches text zs st)"
    using assms(2-6) by (simp add: matches_append matches_Cons_literal)
  then have nonempty: "matches text transformers st \<noteq> []" by simp
  have first: "some rx text (matches text transformers st) st = Some (Accepted A matchedText st2)"
    using assms(7,8) by (simp add: cands some_append)
  note step = formatLoop_accepted [OF assms(1) nonempty first]
  from attempt_io [OF assms(8)] have io2: "io st2 = io st1" by simp
  have "\<exists>parsed.
          (if recursive A then format rx transformers (transformer A matchedText)
           else Some (Inr (transformer A matchedText))) = Some (Inr parsed)
          \<and> prefix (concat (io st1) @ parsed) out"
    if out: "formatLoop rx transformers text st = Some (Inr out)" for out
  proof -
    from out step obtain p where
      p1: "(if recursive A then format rx transformers (transformer A matchedText)
            else Some (Inr (transformer A matchedText))) = Some p"
      and p2: "(case p of
                 Inl e \<Rightarrow> Some (Inl e)
               | Inr parsed \<Rightarrow>
                   (case close A of
                      Str cls \<Rightarrow>
                        formatLoop rx transformers text
                          (st2\<lparr>io := io st2 @ [parsed], pos := pos st2 + length cls,
                               lastSlice := pos st2 + length cls\<rparr>)
                    | _ \<Rightarrow> Some (Inl TypeError))) = Some (Inr out)"
      by (auto simp: bind_eq_Some_conv)
    from p2 obtain parsed where parsed: "p = Inr parsed" by (cases p) auto
    with p2 obtain cls :: string where
      "formatLoop rx transformers text
         (st2\<lparr>io := io st2 @ [parsed], pos := pos st2 + length cls,
              lastSlice := pos st2 + length cls\<rparr>) = Some (Inr out)"
      by (cases "close A") auto
    from formatLoop_io_prefix [OF this] io2 have "prefix (concat (io st1) @ parsed) out" by simp
    with p1 parsed show ?thesis by blast
  qed
  with first show ?thesis by blast
qed

text \<open>
  Claim C2 says that of two transformers whose opening delimiters both match at the
  cursor, the one registered first is tried first there, and that its result is in
  the output when its attempt succeeds. The example of the claim holds: bold before
  italic, on \<^verbatim>\<open>**bold** and *italic*\<close>. It fails when a transformer registered
  still earlier is vetoed, because the veto leaves the cursor behind that
  transformer's opening delimiter and the candidates after it are tried from there.
  On the text \<^verbatim>\<open>**b**\<close> both \<^verbatim>\<open>**\<close> (bold) and \<^verbatim>\<open>*\<close> (italic without padding)
  occur at position 0, the attempt of bold at position 0 is accepted, and with these
  two alone the call returns \<^verbatim>\<open><b>b</b>\<close>. With an italic that refuses the empty
  span registered in front of them, that attempt ends with \<open>pos\<close> 1, bold does not
  match there, the later italic is accepted, and the call returns \<^verbatim>\<open><i>b</i>*\<close>.
\<close>

theorem earlier_veto_overrides_registration_order:
  "format rx (addTransformer italicOptions (addTransformer boldOptions []))
       ''**bold** and *italic*'' = Some (Inr ''<b>bold</b> and <i>italic</i>'')
   \<and> indexOf ''**b**'' ''**'' 0 = Some 0 \<and> indexOf ''**b**'' ''*'' 0 = Some 0
   \<and> attempt rx ''**b**'' bold start
       = Some (Accepted bold ''b'' \<lparr>pos = 3, lastSlice = 0, io = []\<rparr>)
   \<and> format rx [bold, italic\<lparr>padding := False\<rparr>] ''**b**'' = Some (Inr ''<b>b</b>'')
   \<and> attempt rx ''**b**'' (italic\<lparr>validate := (\<lambda>s. s \<noteq> [])\<rparr>) start
       = Some (Rejected \<lparr>pos = 1, lastSlice = 0, io = []\<rparr>)
   \<and> some rx ''**b**''
         (matches ''**b**'' [italic\<lparr>validate := (\<lambda>s. s \<noteq> [])\<rparr>, bold, italic\<lparr>padding := False\<rparr>] start)
         start
       = Some (Accepted (italic\<lparr>padding := False\<rparr>) ''b'' \<lparr>pos = 3, lastSlice = 0, io = []\<rparr>)
   \<and> format rx [italic\<lparr>validate := (\<lambda>s. s \<noteq> [])\<rparr>, bold, italic\<lparr>padding := False\<rparr>] ''**b**''
       = Some (Inr ''<i>b</i>*'')"
  by (simp add: run registered_italic registered_bold italic_def bold_def)

section \<open>Transformers that are not recursive\<close>



section \<open>Failed attempts and the cursor\<close>

text \<open>
  Where a failed attempt with string delimiters leaves the cursor. When the closing
  delimiter does not occur behind the opening one and \<open>validate\<close> accepts the rest
  of the text, the cursor stays at the end of the text, where \<^verbatim>\<open>untilSymbol\<close> put
  it. When \<open>validate\<close> refuses the span, the cursor is set to \<^verbatim>\<open>fromPos\<close>, behind
  the opening delimiter.
\<close>

lemma unterminated_attempt_cursor:
  assumes "open m = Str opn" and "close m = Str cls" and "cls \<noteq> []"
    and "accept text st opn 0" and "pos st \<le> length text"
    and "indexOf text cls (pos st + length opn) = None"
    and "validate m (slice text (pos st + length opn) (length text))"
  shows "attempt rx text m st = Some (Rejected (st\<lparr>pos := length text\<rparr>))"
proof -
  let ?end = "st\<lparr>pos := length text\<rparr>"
  have until: "untilSymbol text cls (st\<lparr>pos := pos st + length opn\<rparr>) = ?end"
    using assms(6) by (simp add: untilSymbol_def)
  have no1: "\<not> accept text ?end cls 1"
    using accept_room [of "text" ?end cls 1] assms(3) by auto
  have no0: "\<not> accept text ?end cls 0"
    using accept_room [of "text" ?end cls 0] assms(3) by auto
  from no1 have pad: "paddingLoop text opn cls ?end = Some ?end"
    by (subst paddingLoop.simps) simp
  from assms(1,2,4,7) until pad no0 show ?thesis
    by (simp add: attempt_def isRegExp_def toString_def Let_def)
qed

lemma vetoed_attempt_cursor:
  assumes "open m = Str opn" and "close m = Str cls" and "accept text st opn 0"
    and "(if padding m
          then paddingLoop text opn cls (untilSymbol text cls (st\<lparr>pos := pos st + length opn\<rparr>))
          else Some (untilSymbol text cls (st\<lparr>pos := pos st + length opn\<rparr>))) = Some st3"
    and "\<not> validate m (slice text (pos st + length opn) (pos st3))"
  shows "attempt rx text m st = Some (Rejected (st3\<lparr>pos := pos st + length opn\<rparr>))"
  using assms by (simp add: attempt_def isRegExp_def toString_def Let_def)

text \<open>
  Claim C1 says that italic with padding, on \<^verbatim>\<open>*a**b*\<close>, never hands the span
  \<^verbatim>\<open>a**b\<close> to the callback. The padding loop steps over the doubled star and stops
  at the last star, so the attempt is accepted with exactly that span, and the call
  returns \<^verbatim>\<open><i>a<i></i>b</i>\<close> (the transformed text is formatted again, which turns
  the two stars into an empty italic span).
\<close>

theorem doubled_delimiter_is_one_span:
  "addTransformer italicOptions [] = [italic]
   \<and> attempt rx ''*a**b*'' italic start
       = Some (Accepted italic ''a**b'' \<lparr>pos = 5, lastSlice = 0, io = []\<rparr>)
   \<and> format rx (addTransformer italicOptions []) ''*a**b*'' = Some (Inr ''<i>a<i></i>b</i>'')"
  by (simp add: run registered_italic italic_def)

text \<open>
  Claim C4 says that an attempt whose closing delimiter is missing consumes nothing,
  and that the scan goes on from the opening delimiter. \<^verbatim>\<open>untilSymbol\<close> has moved
  the cursor to the end of the text and nothing moves it back: on the text
  \<^verbatim>\<open>*a `b`\<close>, italic and code registered, the attempt of italic ends with \<open>pos\<close> 6,
  the length of the text, and the call returns the text unchanged. The code span is
  transformed when no star stands in front of it. (The example of the claim,
  \<^verbatim>\<open>*unterminated\<close> with italic alone, does come back unchanged: nothing follows
  that could be transformed.)
\<close>

theorem unterminated_attempt_ends_the_scan:
  "format rx (addTransformer italicOptions []) ''*unterminated'' = Some (Inr ''*unterminated'')
   \<and> attempt rx ''*a `b`'' italic start = Some (Rejected \<lparr>pos = 6, lastSlice = 0, io = []\<rparr>)
   \<and> format rx (addTransformer codeOptions (addTransformer italicOptions [])) ''*a `b`''
       = Some (Inr ''*a `b`'')
   \<and> format rx (addTransformer codeOptions (addTransformer italicOptions [])) ''+a `b`''
       = Some (Inr ''+a <code>b</code>'')"
  by (simp add: run registered_italic registered_code italic_def code_def)

text \<open>
  Claim C5 says that a veto of \<open>validate\<close> puts the cursor back where the opening
  delimiter was found, and that the later transformers are tried there. The source
  sets \<^verbatim>\<open>pos = fromPos\<close>, the position behind the opening delimiter. With a bold
  transformer that refuses the empty span registered before italic, on \<^verbatim>\<open>****\<close>:
  the attempt of bold ends with \<open>pos\<close> 2, italic is tried there and accepted, and the
  call returns \<^verbatim>\<open><i></i>\<close>. The first two stars are in no part of the output.
\<close>

theorem vetoed_attempt_moves_the_cursor:
  "attempt rx ''****'' (bold\<lparr>validate := (\<lambda>s. s \<noteq> [])\<rparr>) start
      = Some (Rejected \<lparr>pos = 2, lastSlice = 0, io = []\<rparr>)
   \<and> format rx [bold\<lparr>validate := (\<lambda>s. s \<noteq> [])\<rparr>, italic] ''****'' = Some (Inr ''<i></i>'')"
  by (simp add: run italic_def bold_def)

section \<open>Normalising a literal delimiter\<close>

lemma normalizePattern_first_character:
  "\<not> lineTerminator c \<Longrightarrow> normalizePattern (Str (c # cs)) = Inr (CHR 0x5C # c # cs)"
  by (simp add: normalizePattern_def)

text \<open>
  Claim C7 says that \<^verbatim>\<open>normalizePattern\<close> escapes a literal delimiter character by
  character. It puts one backslash in front of the first character and copies the
  rest: \<^verbatim>\<open>**\<close> becomes \<^verbatim>\<open>\**\<close> (an escaped star followed by the quantifier
  \<^verbatim>\<open>*\<close>), and \<^verbatim>\<open>a+b\<close> becomes \<^verbatim>\<open>\a+b\<close> (the quantifier \<^verbatim>\<open>+\<close> is not escaped).
\<close>

theorem normalizePattern_escapes_first_character:
  "normalizePattern (Str ''**'') = Inr [CHR 0x5C, CHR ''*'', CHR ''*'']
   \<and> normalizePattern (Str ''a+b'') = Inr [CHR 0x5C, CHR ''a'', CHR ''+'', CHR ''b'']"
  by (simp add: normalizePattern_def lineTerminator_def)

section \<open>Registering a transformer\<close>

text \<open>
  Claim C8 says that \<^verbatim>\<open>addTransformer\<close> raises a configuration error at once for
  options without \<^verbatim>\<open>symbol\<close> and \<^verbatim>\<open>open\<close>. The method checks nothing: such
  options are stored, with both delimiters \<^verbatim>\<open>undefined\<close>, and the call returns. The
  error shows later and elsewhere: \<^verbatim>\<open>format\<close> raises a \<^verbatim>\<open>TypeError\<close> on
  \<^verbatim>\<open>open.length\<close> as soon as the text reads \<^verbatim>\<open>undefined\<close> at the cursor.
\<close>

theorem addTransformer_accepts_missing_delimiters:
  "addTransformer noDelimiterOptions []
     = [\<lparr> name = ''plain'', open = Undefined, close = Undefined, recursive = True,
           padding = True, validate = (\<lambda>text. True), transformer = (\<lambda>s. s) \<rparr>]
   \<and> format rx (addTransformer noDelimiterOptions []) ''an undefined value''
       = Some (Inl TypeError)"
  by (simp add: run addTransformer_def noDelimiterOptions_def property_def truthy_def)

section \<open>The pattern scanner against the literal scanner\<close>

lemma attemptRegex_recursive:
  "attemptRegex rx text (t\<lparr>recursive := b\<rparr>) st = attemptRegex rx text t st"
  by (simp add: attemptRegex_def cong: sum.case_cong exec_result.case_cong option.case_cong if_cong)

lemma someRegex_recursive:
  "someRegex rx text (map (\<lambda>t. t\<lparr>recursive := f t\<rparr>) ts) st = someRegex rx text ts st"
  by (induction ts arbitrary: st) (auto simp: attemptRegex_recursive split: sum.splits)

lemma formatRegexLoop_recursive:
  "formatRegexLoop rx (map (\<lambda>t. t\<lparr>recursive := f t\<rparr>) ts) text st
     = formatRegexLoop rx ts text st"
proof (induction "length text - pos st" arbitrary: st rule: less_induct)
  case less
  let ?ts' = "map (\<lambda>t. t\<lparr>recursive := f t\<rparr>) ts"
  show ?case
  proof (cases "pos st < length text")
    case False
    then show ?thesis by (simp add: formatRegexLoop.simps)
  next
    case True
    show ?thesis
    proof (cases "someRegex rx text ts st")
      case (Inl e)
      with True show ?thesis
        by (simp add: formatRegexLoop.simps [of rx _ "text" st] someRegex_recursive)
    next
      case (Inr r)
      obtain anyMatched st' where r: "r = (anyMatched, st')" by (cases r)
      let ?next = "if anyMatched then st' else st'\<lparr>pos := pos st' + 1\<rparr>"
      from someRegex_pos [of rx "text" ts st anyMatched st'] Inr r True
      have "length text - pos ?next < length text - pos st" by auto
      from less [OF this] Inr r True show ?thesis
        by (cases anyMatched)
           (simp_all add: formatRegexLoop.simps [of rx _ "text" st] someRegex_recursive)
    qed
  qed
qed

lemma formatRegexLoop_no_transformers:
  "formatRegexLoop rx [] text st
     = Inr (concat (io st) @ slice text (lastSlice st) (max (pos st) (length text)))"
proof (induction "length text - pos st" arbitrary: st rule: less_induct)
  case less
  show ?case
  proof (cases "pos st < length text")
    case False
    then show ?thesis by (simp add: formatRegexLoop.simps max_def)
  next
    case True
    then have "length text - pos (st\<lparr>pos := pos st + 1\<rparr>) < length text - pos st" by simp
    from less [OF this] True show ?thesis
      by (simp add: formatRegexLoop.simps [of rx _ "text" st] max_def)
  qed
qed

text \<open>
  Whatever the engine answers, the string \<^verbatim>\<open>formatRegex\<close> returns is put together
  from slices of the text and from results of \<^verbatim>\<open>transformer\<close> on non-empty,
  validated spans: a property \<open>Q\<close> that these pieces have, and that concatenation
  keeps, holds for the result.
\<close>

lemma attemptRegex_pieces:
  assumes "Q []" and "\<And>a b. Q a \<Longrightarrow> Q b \<Longrightarrow> Q (a @ b)"
    and "\<And>a b. Q (slice text a b)"
    and "\<And>g. g \<noteq> [] \<Longrightarrow> validate t g \<Longrightarrow> Q (transformer t g)"
    and "attemptRegex rx text t st = Inr (b, st')" and "Q (concat (io st))"
  shows "Q (concat (io st'))"
  using assms(5,6) assms(2) [OF assms(6) assms(3)] assms(2) [OF assms(2) [OF assms(6) assms(3)] assms(4)]
  by (auto simp: attemptRegex_def Let_def
           split: sum.splits exec_result.splits option.splits if_splits)

lemma someRegex_pieces:
  assumes "Q []" and "\<And>a b. Q a \<Longrightarrow> Q b \<Longrightarrow> Q (a @ b)"
    and "\<And>a b. Q (slice text a b)"
    and "\<And>t g. t \<in> set ts \<Longrightarrow> g \<noteq> [] \<Longrightarrow> validate t g \<Longrightarrow> Q (transformer t g)"
    and "someRegex rx text ts st = Inr (b, st')" and "Q (concat (io st))"
  shows "Q (concat (io st'))"
  using assms(4-6)
proof (induction ts arbitrary: st)
  case Nil
  then show ?case by simp
next
  case (Cons t ts)
  from Cons.prems(2) obtain c st1 where
    a: "attemptRegex rx text t st = Inr (c, st1)"
    by (auto split: sum.splits)
  have q1: "Q (concat (io st1))"
    by (rule attemptRegex_pieces [where t = t, OF assms(1) assms(2) assms(3) _ a Cons.prems(3)])
       (auto intro: Cons.prems(1))
  show ?case
  proof (cases c)
    case True
    with a Cons.prems(2) q1 show ?thesis by simp
  next
    case False
    with a Cons.prems(2) have "someRegex rx text ts st1 = Inr (b, st')" by simp
    from Cons.IH [OF _ this q1] Cons.prems(1) show ?thesis by simp
  qed
qed

lemma formatRegexLoop_pieces:
  assumes "Q []" and "\<And>a b. Q a \<Longrightarrow> Q b \<Longrightarrow> Q (a @ b)"
    and "\<And>a b. Q (slice text a b)"
    and "\<And>t g. t \<in> set ts \<Longrightarrow> g \<noteq> [] \<Longrightarrow> validate t g \<Longrightarrow> Q (transformer t g)"
    and "formatRegexLoop rx ts text st = Inr out" and "Q (concat (io st))"
  shows "Q out"
  using assms(5,6)
proof (induction "length text - pos st" arbitrary: st rule: less_induct)
  case less
  show ?case
  proof (cases "pos st < length text")
    case False
    with less.prems assms(2) [OF less.prems(2) assms(3)] show ?thesis
      by (auto simp: formatRegexLoop.simps [of rx _ "text" st])
  next
    case True
    with less.prems(1) obtain anyMatched st' where
      s: "someRegex rx text ts st = Inr (anyMatched, st')"
      by (auto simp: formatRegexLoop.simps [of rx _ "text" st] split: sum.splits)
    let ?next = "if anyMatched then st' else st'\<lparr>pos := pos st' + 1\<rparr>"
    have q: "Q (concat (io ?next))"
      using someRegex_pieces [of Q "text" ts rx st anyMatched st', OF assms(1) assms(2) assms(3) assms(4) s less.prems(2)]
      by simp
    from someRegex_pos [OF s] True
    have dec: "length text - pos ?next < length text - pos st" by auto
    from less.prems(1) True s have "formatRegexLoop rx ts text ?next = Inr out"
      by (cases anyMatched) (simp_all add: formatRegexLoop.simps [of rx _ "text" st])
    from less.hyps [OF dec this q] show ?thesis .
  qed
qed

text \<open>
  The two scanners differ whatever the engine answers: with the italic transformer
  alone, \<^verbatim>\<open>format("**")\<close> returns \<^verbatim>\<open><i></i>\<close> (the empty span between the two
  stars), while \<^verbatim>\<open>formatRegex\<close> takes a span only from the group \<^verbatim>\<open>(.+?)\<close> and only
  when it is not empty, so that every piece of its result is a run of stars or at
  least eight characters long.
\<close>

lemma formatRegex_misses_empty_span:
  "\<not> (\<exists>rx. format rx [italic] ''**'' = Some (formatRegex rx [italic] ''**''))"
proof
  assume "\<exists>rx. format rx [italic] ''**'' = Some (formatRegex rx [italic] ''**'')"
  then obtain rx where eq: "format rx [italic] ''**'' = Some (formatRegex rx [italic] ''**'')" ..
  have "format rx [italic] ''**'' = Some (Inr ''<i></i>'')"
    by (simp add: run italic_def)
  with eq have r: "formatRegexLoop rx [italic] ''**'' start = Inr ''<i></i>''"
    by (simp add: formatRegex_def)
  let ?Q = "\<lambda>s. set s \<subseteq> {CHR ''*''} \<or> 8 \<le> length s"
  have "?Q ''<i></i>''"
  proof (rule formatRegexLoop_pieces [where Q = ?Q, OF _ _ _ _ r])
    show "?Q []" by simp
    show "\<And>a b. ?Q a \<Longrightarrow> ?Q b \<Longrightarrow> ?Q (a @ b)" by auto
    show "\<And>a b. ?Q (slice ''**'' a b)"
      by (auto simp: slice_def dest!: in_set_takeD in_set_dropD)
    show "\<And>t g. t \<in> set [italic] \<Longrightarrow> g \<noteq> [] \<Longrightarrow> validate t g \<Longrightarrow> ?Q (transformer t g)"
    proof -
      fix t g assume "t \<in> set [italic]" "g \<noteq> ([]::string)"
      then have "8 \<le> length (transformer t g)" by (cases g) (simp_all add: italic_def)
      then show "?Q (transformer t g)" ..
    qed
    show "?Q (concat (io start))" by (simp add: start_def)
  qed
  then show False by simp
qed

text \<open>
  \<^verbatim>\<open>formatRegex\<close> does not read \<open>recursive\<close>: setting the flags of the registry to
  any values leaves its result unchanged. With the empty registry it returns the
  text, as \<^verbatim>\<open>format\<close> does.
\<close>

lemma formatRegex_ignores_recursive:
  "formatRegex rx (map (\<lambda>t. t\<lparr>recursive := f t\<rparr>) transformers) text
     = formatRegex rx transformers text
   \<and> formatRegex rx [] text = Inr text
   \<and> format rx [] text = Some (formatRegex rx [] text)"
  by (simp add: formatRegex_def formatRegexLoop_recursive formatRegexLoop_no_transformers
        format_def formatLoop_no_transformers start_def slice_def)

text \<open>The definitions a run of \<^verbatim>\<open>formatRegex\<close> on a concrete text unfolds.\<close>

lemmas runRegex =
  Let_def formatRegex_def start_def formatRegexLoop.simps attemptRegex_def normalizePattern_def
  lineTerminator_def charAt_def slice_def

text \<open>
  Claim C6 says that \<^verbatim>\<open>formatRegex(text)\<close> returns the same string as
  \<^verbatim>\<open>format(text)\<close>, the transformed fragment being formatted again when the
  transformer is recursive. Italic (recursive) and code registered, on the text
  \<^verbatim>\<open>*`a`*\<close>: \<^verbatim>\<open>format\<close> formats the result of italic again and returns
  \<^verbatim>\<open><i><code>a</code></i>\<close>; \<^verbatim>\<open>formatRegex\<close>, whose step
  \<^verbatim>\<open>transformed = this.formatRegex(transformed)\<close> is commented out, pushes the
  result of italic as it is and returns it with the backquotes still in place. The
  two assumptions are the answers of the engine to the two questions
  \<^verbatim>\<open>formatRegex\<close> asks on this text.
\<close>

theorem formatRegex_does_not_format_again:
  assumes "rx (''^'' @ [CHR 0x5C] @ ''*(.+?)'' @ [CHR 0x5C] @ ''*'') ''*`a`*''
             = Match ''*`a`*'' (Some ''`a`'')"
    and "rx ([CHR 0x5C] @ ''*'') ''undefined'' = Null"
  shows "format rx [italic, code] ''*`a`*'' = Some (Inr ''<i><code>a</code></i>'')
       \<and> formatRegex rx [italic, code] ''*`a`*'' = Inr ''<i>`a`</i>''"
proof
  show "format rx [italic, code] ''*`a`*'' = Some (Inr ''<i><code>a</code></i>'')"
    by (simp add: run italic_def code_def)
  from assms show "formatRegex rx [italic, code] ''*`a`*'' = Inr ''<i>`a`</i>''"
    by (simp add: runRegex italic_def code_def)
qed

text \<open>An instance: the engine of the scenario, and the registry built by registration.\<close>

theorem formatRegex_does_not_format_again_witness:
  "addTransformer codeOptions (addTransformer italicOptions []) = [italic, code]
   \<and> format scenarioEngine [italic, code] ''*`a`*'' = Some (Inr ''<i><code>a</code></i>'')
   \<and> formatRegex scenarioEngine [italic, code] ''*`a`*'' = Inr ''<i>`a`</i>''"
proof -
  have h1: "scenarioEngine (''^'' @ [CHR 0x5C] @ ''*(.+?)'' @ [CHR 0x5C] @ ''*'') ''*`a`*''
             = Match ''*`a`*'' (Some ''`a`'')"
    by (simp add: scenarioEngine_def)
  have h2: "scenarioEngine ([CHR 0x5C] @ ''*'') ''undefined'' = Null"
    by (simp add: scenarioEngine_def)
  from formatRegex_does_not_format_again [OF h1 h2] show ?thesis
    by (simp add: registered_italic registered_code)
qed

end
